theory Spec2Isabelle
  imports Complex_Main "HOL-Library.Log_Nat" "HOL-Library.Word"
begin

section \<open>Python arithmetic used by the program\<close>

text \<open>
  \<^verbatim>\<open>resize_image\<close> computes with Python floats (IEEE 754 binary64): \<^verbatim>\<open>width / height\<close>
  is the correctly rounded quotient of two ints, \<^verbatim>\<open>new_width / aspect_ratio\<close> and
  \<^verbatim>\<open>new_height * aspect_ratio\<close> convert the int to a float and are one rounded float
  operation each, and \<^verbatim>\<open>int(...)\<close> truncates towards zero. A float is modelled by the rational number it denotes; \<open>fl\<close>
  rounds a rational to the nearest number with a 53-bit significand, ties to even. The
  exponent range is not modelled: image sides are machine integers in Pillow, so every
  quotient of the program lies far inside the normal range of binary64.
\<close>

datatype exn = ZeroDivisionError | Raised string

definition ilog2 :: "rat \<Rightarrow> int" where
  "ilog2 x = (case quotient_of x of (p, q) \<Rightarrow>
     let d = bitlen p - bitlen q in if power_int 2 d \<le> x then d else d - 1)"

definition round_half_even :: "rat \<Rightarrow> int" where
  "round_half_even y = (let f = \<lfloor>y\<rfloor>; t = y - of_int f in
     if t < 1 / 2 then f else if 1 / 2 < t then f + 1 else if even f then f else f + 1)"

definition fl_pos :: "rat \<Rightarrow> rat" where
  "fl_pos x = (let u = power_int 2 (ilog2 x - 52) in of_int (round_half_even (x / u)) * u)"

definition fl :: "rat \<Rightarrow> rat" where
  "fl x = (if x = 0 then 0 else if x < 0 then - fl_pos (- x) else fl_pos x)"

definition int_truediv :: "int \<Rightarrow> int \<Rightarrow> exn + rat" where
  "int_truediv a b = (if b = 0 then Inl ZeroDivisionError else Inr (fl (of_int a / of_int b)))"

definition float_div :: "rat \<Rightarrow> rat \<Rightarrow> exn + rat" where
  "float_div x y = (if y = 0 then Inl ZeroDivisionError else Inr (fl (x / y)))"

definition float_mul :: "rat \<Rightarrow> rat \<Rightarrow> rat" where
  "float_mul x y = fl (x * y)"

definition float_of_int :: "int \<Rightarrow> rat" where
  "float_of_int n = fl (of_int n)"

definition py_int :: "rat \<Rightarrow> int" where
  "py_int x = (if 0 \<le> x then \<lfloor>x\<rfloor> else \<lceil>x\<rceil>)"

section \<open>Images\<close>

type_synonym byte = "8 word"

type_synonym pixel = "byte \<times> byte \<times> byte \<times> byte"

datatype mode = RGB | RGBA

record image =
  width :: nat
  height :: nat
  mode :: mode
  pixels :: "pixel list"

section \<open>Constants\<close>

definition MAX_FILE_SIZE :: int where
  "MAX_FILE_SIZE = 15 * 1024 * 1024"

definition MAX_IMAGE_DIM :: int where
  "MAX_IMAGE_DIM = 2500"

section \<open>resize_image\<close>

text \<open>
  The size that \<^verbatim>\<open>resize_image\<close> asks for, as the pair \<^verbatim>\<open>(new_width, new_height)\<close>;
  \<open>None\<close> stands for the early \<^verbatim>\<open>return image\<close>.
\<close>

definition new_size :: "int \<Rightarrow> int \<Rightarrow> int \<Rightarrow> exn + (int \<times> int) option" where
  "new_size w h max_dim =
     (if w \<le> max_dim \<and> h \<le> max_dim then Inr None
      else case int_truediv w h of
        Inl e \<Rightarrow> Inl e
      | Inr aspect_ratio \<Rightarrow>
          if w > h then
            (case float_div (float_of_int max_dim) aspect_ratio of
               Inl e \<Rightarrow> Inl e
             | Inr q \<Rightarrow> Inr (Some (max_dim, py_int q)))
          else Inr (Some (py_int (float_mul (float_of_int max_dim) aspect_ratio), max_dim)))"

text \<open>
  \<^verbatim>\<open>image.resize(size, Image.Resampling.LANCZOS)\<close> belongs to Pillow; it is the parameter
  \<open>resample\<close>, which may raise.
\<close>

definition resize_image ::
  "(image \<Rightarrow> int \<times> int \<Rightarrow> exn + image) \<Rightarrow> image \<Rightarrow> int \<Rightarrow> exn + image" where
  "resize_image resample img max_dim =
     (case new_size (int (width img)) (int (height img)) max_dim of
        Inl e \<Rightarrow> Inl e
      | Inr None \<Rightarrow> Inr img
      | Inr (Some sz) \<Rightarrow> resample img sz)"

text \<open>
  A resampler that refuses a size with a side below 1, as Pillow's \<^verbatim>\<open>resize\<close> does
  (\<^verbatim>\<open>ValueError: height and width must be > 0\<close>), and otherwise sets the requested size;
  the resampled pixel data is not modelled.
\<close>

definition strict_resample :: "image \<Rightarrow> int \<times> int \<Rightarrow> exn + image" where
  "strict_resample img sz =
     (if fst sz < 1 \<or> snd sz < 1 then Inl (Raised ''height and width must be > 0'')
      else Inr (img\<lparr>width := nat (fst sz), height := nat (snd sz)\<rparr>))"


section \<open>External collaborators\<close>

text \<open>
  Pillow's decoder, resampler and sharpen filter, its colour-name parser, and rembg's
  \<^verbatim>\<open>remove\<close> are not part of the repository. They are parameters of the model; each of
  them may raise. \<open>reference_gray\<close> is the gray level that the contrast enhancer measures
  deviations from.
\<close>

record externals =
  image_open :: "byte list \<Rightarrow> exn + image"
  resize_lanczos :: "image \<Rightarrow> int \<times> int \<Rightarrow> exn + image"
  filter_sharpen :: "image \<Rightarrow> exn + image"
  reference_gray :: "image \<Rightarrow> byte"
  remove :: "image \<Rightarrow> bool \<Rightarrow> int \<Rightarrow> int \<Rightarrow> exn + image"
  getrgb :: "string \<Rightarrow> exn + pixel"

definition bind_exn :: "exn + 'a \<Rightarrow> ('a \<Rightarrow> exn + 'b) \<Rightarrow> exn + 'b" where
  "bind_exn m f = (case m of Inl e \<Rightarrow> Inl e | Inr x \<Rightarrow> f x)"

definition str_exn :: "exn \<Rightarrow> string" where
  "str_exn e = (case e of ZeroDivisionError \<Rightarrow> ''division by zero'' | Raised msg \<Rightarrow> msg)"

section \<open>Pillow operations with a fixed meaning\<close>

text \<open>
  Modelled from the spec: \<^verbatim>\<open>Image.convert\<close> belongs to Pillow and is not under src/.
  Spec 4.1: conversion to RGBA "adds an opaque alpha channel of 255 if absent"; spec 4.5:
  the RGB output is opaque. An RGB image keeps 255 in the fourth component of each pixel.
\<close>

definition opaque :: "pixel \<Rightarrow> pixel" where
  "opaque p = (case p of (r, g, b, a) \<Rightarrow> (r, g, b, 255))"

definition convert :: "mode \<Rightarrow> image \<Rightarrow> image" where
  "convert m img =
     (if m = RGBA \<and> mode img = RGBA then img
      else img\<lparr>mode := m, pixels := map opaque (pixels img)\<rparr>)"

text \<open>\<^verbatim>\<open>Image.new("RGBA", size, color)\<close>: a bitmap filled with one colour.\<close>

definition new_image :: "nat \<times> nat \<Rightarrow> pixel \<Rightarrow> image" where
  "new_image sz c = \<lparr>width = fst sz, height = snd sz, mode = RGBA,
     pixels = replicate (fst sz * snd sz) c\<rparr>"

text \<open>
  Modelled from the spec: \<^verbatim>\<open>Image.paste(im, (0, 0), mask)\<close> belongs to Pillow and is not
  under src/. Spec 4.5: the foreground is alpha-blended over the background per pixel,
  \<open>out = fg * (a / 255) + bg * (1 - a / 255)\<close>, where \<open>a\<close> is the alpha of the mask
  pixel; the value is rounded to the nearest channel level. Every band of the pixel is
  blended in this way.
\<close>

definition blend_channel :: "byte \<Rightarrow> byte \<Rightarrow> byte \<Rightarrow> byte" where
  "blend_channel a f b =
     of_nat ((unat f * unat a + unat b * (255 - unat a) + 127) div 255)"

definition blend_pixel :: "pixel \<Rightarrow> pixel \<Rightarrow> pixel \<Rightarrow> pixel" where
  "blend_pixel mk fg bg =
     (case mk of (mr, mg, mb, ma) \<Rightarrow>
      case fg of (fr, fg', fb, fa) \<Rightarrow>
      case bg of (br, bg', bb, ba) \<Rightarrow>
        (blend_channel ma fr br, blend_channel ma fg' bg', blend_channel ma fb bb,
         blend_channel ma fa ba))"

definition paste :: "image \<Rightarrow> image \<Rightarrow> image \<Rightarrow> image" where
  "paste bg_image im mask_image =
     bg_image\<lparr>pixels := map (\<lambda>(mk, fg, bg). blend_pixel mk fg bg)
        (zip (pixels mask_image) (zip (pixels im) (pixels bg_image)))\<rparr>"

text \<open>
  Modelled from the spec: \<^verbatim>\<open>ImageEnhance.Contrast(image).enhance(factor)\<close> belongs to
  Pillow and is not under src/. Spec 4.3: contrast "multiplies pixel deviation from
  mid-gray by 1.20, clamped to the valid channel range". The gray level is the parameter
  \<open>reference_gray\<close>; the scaled value is cut to a whole channel level; the alpha band
  is left as it is.
\<close>

definition clamp_channel :: "int \<Rightarrow> int" where
  "clamp_channel v = (if v \<le> 0 then 0 else if 255 \<le> v then 255 else v)"

definition contrast_channel :: "byte \<Rightarrow> rat \<Rightarrow> byte \<Rightarrow> byte" where
  "contrast_channel g factor v =
     of_int (clamp_channel (py_int (of_int (uint g) + factor * (of_int (uint v) - of_int (uint g)))))"

definition contrast_pixel :: "byte \<Rightarrow> rat \<Rightarrow> pixel \<Rightarrow> pixel" where
  "contrast_pixel g factor p =
     (case p of (r, gr, b, a) \<Rightarrow>
        (contrast_channel g factor r, contrast_channel g factor gr,
         contrast_channel g factor b, a))"

definition contrast_enhance :: "externals \<Rightarrow> image \<Rightarrow> rat \<Rightarrow> image" where
  "contrast_enhance ext img factor =
     img\<lparr>pixels := map (contrast_pixel (reference_gray ext img) factor) (pixels img)\<rparr>"

section \<open>process_image\<close>

record session_options =
  alpha_matting :: bool
  fg_threshold :: int
  bg_threshold :: int
  bg_color :: string
  use_sharpen :: bool
  use_contrast :: bool

text \<open>Lines 197-203: the pre-processing filters, sharpen first, then contrast.\<close>

definition enhance :: "externals \<Rightarrow> session_options \<Rightarrow> image \<Rightarrow> exn + image" where
  "enhance ext opts resized_image =
     bind_exn (if use_sharpen opts then filter_sharpen ext resized_image else Inr resized_image)
       (\<lambda>processed_image.
          if use_contrast opts then Inr (contrast_enhance ext processed_image (6 / 5))
          else Inr processed_image)"

text \<open>Lines 214-220: the custom background colour.\<close>

definition composite :: "externals \<Rightarrow> string \<Rightarrow> image \<Rightarrow> exn + image" where
  "composite ext color removed_bg_image =
     (if color \<noteq> ''transparent'' then
        bind_exn (getrgb ext color) (\<lambda>c.
          let bg_image = new_image (width removed_bg_image, height removed_bg_image) c;
              bg_image = paste bg_image removed_bg_image removed_bg_image
          in Inr (convert RGB bg_image))
      else Inr removed_bg_image)"

text \<open>The body of the \<^verbatim>\<open>try\<close> block, lines 188-222; \<open>Inl\<close> is a raised exception.\<close>

definition process_image_body ::
  "externals \<Rightarrow> byte list \<Rightarrow> session_options \<Rightarrow> exn + image \<times> image" where
  "process_image_body ext image_bytes opts =
     bind_exn (image_open ext image_bytes) (\<lambda>original_image.
     bind_exn (Inr (if mode original_image \<noteq> RGBA then convert RGBA original_image
                    else original_image)) (\<lambda>original_image.
     bind_exn (resize_image (resize_lanczos ext) original_image MAX_IMAGE_DIM) (\<lambda>resized_image.
     bind_exn (enhance ext opts resized_image) (\<lambda>processed_image.
     bind_exn (remove ext processed_image (alpha_matting opts) (fg_threshold opts)
                 (bg_threshold opts)) (\<lambda>removed_bg_image.
     bind_exn (composite ext (bg_color opts) removed_bg_image) (\<lambda>final_image.
     Inr (resized_image, final_image)))))))"

section \<open>The application state and the cache\<close>

text \<open>
  What the program leaves behind: the entries of Streamlit's data cache, the messages
  shown with \<^verbatim>\<open>st.error\<close>, the image pairs put on the page with the download format, and
  a count of the calls of the decoder \<^verbatim>\<open>Image.open\<close>.
\<close>

type_synonym outcome = "image option \<times> image option"

record app =
  cache :: "byte list \<times> session_options \<Rightarrow> (outcome \<times> int) option"
  errors :: "string list"
  shown :: "(image \<times> image \<times> string) list"
  decode_calls :: nat

text \<open>
  The decorated function: the \<^verbatim>\<open>try\<close> block with its handler, which shows the message
  and returns \<^verbatim>\<open>(None, None)\<close>.
\<close>

definition process_image_uncached ::
  "externals \<Rightarrow> byte list \<Rightarrow> session_options \<Rightarrow> app \<Rightarrow> outcome \<times> app" where
  "process_image_uncached ext image_bytes opts s =
     (let s = s\<lparr>decode_calls := decode_calls s + 1\<rparr> in
      case process_image_body ext image_bytes opts of
        Inr (resized_image, final_image) \<Rightarrow> ((Some resized_image, Some final_image), s)
      | Inl e \<Rightarrow>
          ((None, None),
           s\<lparr>errors := errors s @ [''Error during image processing: '' @ str_exn e]\<rparr>))"

text \<open>
  Modelled from the spec: \<^verbatim>\<open>st.cache_data(ttl=3600)\<close> belongs to Streamlit and is not under
  src/. Spec 4.6 and 3: the key is the pair of the raw bytes and every option, by value;
  entries older than the time-to-live are treated as absent; on a miss the function runs
  and what it returns is stored. Time is in seconds.
\<close>

definition cache_data ::
  "int \<Rightarrow> (byte list \<Rightarrow> session_options \<Rightarrow> app \<Rightarrow> outcome \<times> app) \<Rightarrow>
   int \<Rightarrow> byte list \<Rightarrow> session_options \<Rightarrow> app \<Rightarrow> outcome \<times> app" where
  "cache_data ttl f now image_bytes opts s =
     (case cache s (image_bytes, opts) of
        Some (v, stored) \<Rightarrow>
          if now - stored \<le> ttl then (v, s)
          else (case f image_bytes opts s of
                  (v', s') \<Rightarrow> (v', s'\<lparr>cache := (cache s')((image_bytes, opts) \<mapsto> (v', now))\<rparr>))
      | None \<Rightarrow>
          (case f image_bytes opts s of
             (v', s') \<Rightarrow> (v', s'\<lparr>cache := (cache s')((image_bytes, opts) \<mapsto> (v', now))\<rparr>)))"

definition process_image ::
  "externals \<Rightarrow> int \<Rightarrow> byte list \<Rightarrow> session_options \<Rightarrow> app \<Rightarrow> outcome \<times> app" where
  "process_image ext = cache_data 3600 (process_image_uncached ext)"

section \<open>main: an uploaded file\<close>

record upload =
  name :: string
  data :: "byte list"

definition file_format :: "session_options \<Rightarrow> string" where
  "file_format opts = (if bg_color opts = ''transparent'' then ''PNG'' else ''JPEG'')"

text \<open>Lines 304-336, the branch \<^verbatim>\<open>my_upload is not None\<close>.\<close>

definition handle_upload ::
  "externals \<Rightarrow> int \<Rightarrow> upload \<Rightarrow> session_options \<Rightarrow> app \<Rightarrow> app" where
  "handle_upload ext now my_upload opts s =
     (if int (length (data my_upload)) > MAX_FILE_SIZE then
        s\<lparr>errors := errors s @
          [''File size exceeds the limit of 15MB. Please upload a smaller image.'']\<rparr>
      else
        case process_image ext now (data my_upload) opts s of
          ((Some original, Some fixed), s') \<Rightarrow>
            s'\<lparr>shown := shown s' @ [(original, fixed, file_format opts)]\<rparr>
        | (_, s') \<Rightarrow> s')"

section \<open>The blend of the specification, and stand-ins for the collaborators\<close>

text \<open>
  The per-pixel blend as spec 4.5 writes it, in exact arithmetic:
  \<open>out = fg * (a / 255) + bg * (1 - a / 255)\<close>.
\<close>

definition alpha_blend :: "byte \<Rightarrow> byte \<Rightarrow> byte \<Rightarrow> rat" where
  "alpha_blend a f b =
     of_nat (unat f) * (of_nat (unat a) / 255) + of_nat (unat b) * (1 - of_nat (unat a) / 255)"

text \<open>
  Collaborators for the worked examples: the decoder yields the image \<open>img\<close> for any
  bytes, the resampler only sets the size, sharpening and background removal change
  nothing, the reference gray is 128 and every colour name parses to \<open>c\<close>.
  \<open>failing_externals\<close> is the same with a decoder that raises.
\<close>

definition plain_externals :: "image \<Rightarrow> pixel \<Rightarrow> externals" where
  "plain_externals img c =
     \<lparr>image_open = (\<lambda>bs. Inr img),
      resize_lanczos = (\<lambda>i sz. Inr (i\<lparr>width := nat (fst sz), height := nat (snd sz)\<rparr>)),
      filter_sharpen = (\<lambda>i. Inr i),
      reference_gray = (\<lambda>i. 128),
      remove = (\<lambda>i am fg bg. Inr i),
      getrgb = (\<lambda>s. Inr c)\<rparr>"

definition failing_externals :: externals where
  "failing_externals =
     (plain_externals \<lparr>width = 0, height = 0, mode = RGBA, pixels = []\<rparr> (0, 0, 0, 255))
       \<lparr>image_open := (\<lambda>bs. Inl (Raised ''cannot identify image file''))\<rparr>"

definition default_options :: session_options where
  "default_options =
     \<lparr>alpha_matting = True, fg_threshold = 240, bg_threshold = 10, bg_color = ''#1E1E1E'',
      use_sharpen = False, use_contrast = False\<rparr>"

definition initial_app :: app where
  "initial_app = \<lparr>cache = (\<lambda>k. None), errors = [], shown = [], decode_calls = 0\<rparr>"

section \<open>Rounding error of the float operations\<close>

lemma ilog2_lower: assumes "0 < x" shows "power_int 2 (ilog2 x) \<le> x"
proof -
  obtain p q where pq: "quotient_of x = (p, q)" by (cases "quotient_of x")
  have q: "0 < q" using pq by (rule quotient_of_denom_pos)
  have x: "x = of_int p / of_int q" using pq by (rule quotient_of_div)
  have p: "0 < p" using assms q x by (simp add: zero_less_divide_iff)
  define bp where "bp = nat (bitlen p - 1)"
  define bq where "bq = nat (bitlen q)"
  have bpe: "bitlen p = int bp + 1" using p bitlen_eq_zero_iff[of p] bitlen_nonneg[of p] by (simp add: bp_def)
  have bqe: "bitlen q = int bq" using bitlen_nonneg[of q] by (simp add: bq_def)
  have lp: "(2::int) ^ bp \<le> p" using bitlen_bounds[OF p] by (simp add: bp_def)
  have uq: "q < (2::int) ^ bq" using bitlen_bounds[OF q] by (simp add: bq_def)
  have lp': "(2::rat) ^ bp \<le> of_int p" using lp by (metis of_int_le_iff of_int_numeral of_int_power)
  have uq': "of_int q \<le> (2::rat) ^ bq" using uq by (metis less_imp_le of_int_le_iff of_int_numeral of_int_power)
  have "(2::rat) powi (bitlen p - bitlen q - 1) = 2 powi (int bp) / 2 powi (int bq)"
    unfolding bpe bqe by (simp add: power_int_diff)
  also have "\<dots> = 2 ^ bp / 2 ^ bq" by simp
  also have "\<dots> \<le> of_int p / of_int q"
    using lp' uq' q p by (intro frac_le) auto
  finally have low: "(2::rat) powi (bitlen p - bitlen q - 1) \<le> x" using x by simp
  show ?thesis using low by (simp add: ilog2_def pq Let_def)
qed

lemma ilog2_upper: assumes "0 < x" shows "x < power_int 2 (ilog2 x + 1)"
proof -
  obtain p q where pq: "quotient_of x = (p, q)" by (cases "quotient_of x")
  have q: "0 < q" using pq by (rule quotient_of_denom_pos)
  have x: "x = of_int p / of_int q" using pq by (rule quotient_of_div)
  have p: "0 < p" using assms q x by (simp add: zero_less_divide_iff)
  define bp where "bp = nat (bitlen p)"
  define bq where "bq = nat (bitlen q - 1)"
  have bpe: "bitlen p = int bp" using bitlen_nonneg[of p] by (simp add: bp_def)
  have bqe: "bitlen q = int bq + 1" using q bitlen_eq_zero_iff[of q] bitlen_nonneg[of q] by (simp add: bq_def)
  have up: "p < (2::int) ^ bp" using bitlen_bounds[OF p] by (simp add: bp_def)
  have lq: "(2::int) ^ bq \<le> q" using bitlen_bounds[OF q] by (simp add: bq_def)
  have up': "of_int p < (2::rat) ^ bp" using up by (metis of_int_less_iff of_int_numeral of_int_power)
  have lq': "(2::rat) ^ bq \<le> of_int q" using lq by (metis of_int_le_iff of_int_numeral of_int_power)
  have "x = of_int p / of_int q" by (rule x)
  also have "\<dots> < 2 ^ bp / 2 ^ bq"
    using up' lq' p by (intro frac_less) auto
  also have "\<dots> = 2 powi (int bp) / 2 powi (int bq)" by simp
  also have "\<dots> = (2::rat) powi (bitlen p - bitlen q + 1)"
    unfolding bpe bqe by (simp add: power_int_diff)
  finally have upp: "x < (2::rat) powi (bitlen p - bitlen q + 1)" .
  show ?thesis using upp by (auto simp add: ilog2_def pq Let_def not_le)
qed

lemma round_half_even_err: "\<bar>of_int (round_half_even y) - y\<bar> \<le> 1 / 2"
  unfolding round_half_even_def Let_def by (auto simp: abs_if) linarith+

lemma fl_pos_err: assumes "0 < x" shows "\<bar>fl_pos x - x\<bar> \<le> x / 2 ^ 53"
proof -
  define u :: rat where "u = power_int 2 (ilog2 x - 52)"
  define k :: rat where "k = of_int (round_half_even (x / u))"
  have u0: "0 < u" by (simp add: u_def)
  have "u * 2 ^ 52 = power_int 2 (ilog2 x - 52) * power_int 2 52" by (simp add: u_def)
  also have "\<dots> = power_int 2 (ilog2 x)" by (subst power_int_add[symmetric]) auto
  finally have ux: "u * 2 ^ 52 \<le> x" using ilog2_lower[OF assms] by simp
  have f: "fl_pos x = k * u" by (simp add: fl_pos_def Let_def u_def k_def)
  have "k * u - x = (k - x / u) * u" using u0 by (simp add: left_diff_distrib)
  then have "\<bar>fl_pos x - x\<bar> = \<bar>k - x / u\<bar> * \<bar>u\<bar>" unfolding f by (simp only: abs_mult)
  also have "\<dots> = \<bar>k - x / u\<bar> * u" using u0 by (simp only: abs_of_pos)
  also have "\<dots> \<le> 1 / 2 * u" using round_half_even_err[of "x / u"] u0 unfolding k_def by (intro mult_right_mono) auto
  also have "\<dots> \<le> x / 2 ^ 53" using ux by simp
  finally show ?thesis .
qed

lemma fl_err: assumes "0 \<le> x" shows "\<bar>fl x - x\<bar> \<le> x / 2 ^ 53"
proof (cases "x = 0")
  case True
  then show ?thesis by (simp add: fl_def)
next
  case False
  with assms have "0 < x" by simp
  then show ?thesis using fl_pos_err[of x] by (simp add: fl_def)
qed

lemma round_half_even_of_int: "round_half_even (of_int z) = z"
  by (simp add: round_half_even_def)

lemma float_of_int_exact:
  assumes "0 \<le> n" and "n < 2 ^ 53"
  shows "float_of_int n = of_int n"
proof (cases "n = 0")
  case True
  then show ?thesis by (simp add: float_of_int_def fl_def)
next
  case False
  define x :: rat where "x = of_int n"
  define e where "e = ilog2 x"
  have x0: "0 < x" using assms(1) False by (simp add: x_def)
  have "(of_int n :: rat) < of_int (2 ^ 53)" using assms(2) by (simp only: of_int_less_iff)
  then have x53: "x < 2 powi 53" by (simp add: x_def)
  have e52: "e \<le> 52"
  proof (rule ccontr)
    assume "\<not> e \<le> 52"
    then have "53 \<le> e" by simp
    then have "(2 :: rat) powi 53 \<le> 2 powi e" by (intro power_int_increasing) auto
    also have "\<dots> \<le> x" unfolding e_def using x0 by (rule ilog2_lower)
    finally show False using x53 by simp
  qed
  define k where "k = nat (52 - e)"
  have ek: "e - 52 = - int k" using e52 by (simp add: k_def)
  have u: "(2 :: rat) powi (e - 52) = 1 / 2 ^ k"
    unfolding ek by (simp add: power_int_minus_divide)
  have "x / (1 / 2 ^ k) = of_int (n * 2 ^ k)" by (simp add: x_def)
  then have r: "round_half_even (x / (1 / 2 ^ k)) = n * 2 ^ k"
    by (simp only: round_half_even_of_int)
  have "fl_pos x = x"
    unfolding fl_pos_def Let_def e_def[symmetric] u r by (simp add: x_def)
  then show ?thesis using x0 by (simp add: float_of_int_def fl_def x_def[symmetric])
qed

lemma quot_round:
  fixes a m r q :: rat
  assumes a: "0 < a" and m: "0 \<le> m"
    and r: "\<bar>r - a\<bar> \<le> a / 2 ^ 53"
    and q: "\<bar>q - m / r\<bar> \<le> (m / r) / 2 ^ 53"
  shows "\<bar>q - m / a\<bar> \<le> 3 * (m / a) / 2 ^ 53"
proof -
  define E where "E = m / a"
  have E0: "0 \<le> E" using a m by (simp add: E_def)
  have "r - a \<le> a / 2 ^ 53" and "a - r \<le> a / 2 ^ 53" using r by linarith+
  then have rl: "a * (1 - 1 / 2 ^ 53) \<le> r" and ru: "r \<le> a * (1 + 1 / 2 ^ 53)"
    by (simp_all add: algebra_simps)
  have al: "0 < a * (1 - 1 / 2 ^ 53)" using a by simp
  have r0: "0 < r" using al rl by linarith
  have "m / r \<le> m / (a * (1 - 1 / 2 ^ 53))"
    using m al rl by (intro divide_left_mono mult_pos_pos r0) auto
  also have "\<dots> = E / (1 - 1 / 2 ^ 53)" by (simp add: E_def)
  finally have u1: "m / r \<le> E / (1 - 1 / 2 ^ 53)" .
  have "m / (a * (1 + 1 / 2 ^ 53)) \<le> m / r"
    using m ru r0 a by (intro divide_left_mono mult_pos_pos) auto
  then have l1: "E / (1 + 1 / 2 ^ 53) \<le> m / r" by (simp add: E_def)
  have ql: "m / r - (m / r) / 2 ^ 53 \<le> q" and qu: "q \<le> m / r + (m / r) / 2 ^ 53"
    using q by linarith+
  define X where "X = m / r"
  have u2: "X * 9007199254740991 \<le> E * 9007199254740992"
    using u1 by (simp add: X_def field_simps)
  have l2: "E * 9007199254740992 \<le> X * 9007199254740993"
    using l1 by (simp add: X_def field_simps)
  have q2: "X * 9007199254740991 \<le> q * 9007199254740992" "q * 9007199254740992 \<le> X * 9007199254740993"
    using ql qu by (simp_all add: X_def[symmetric] field_simps)
  have "q * 9007199254740992 \<le> E * 9007199254740992 + 3 * E"
    and "E * 9007199254740992 \<le> q * 9007199254740992 + 3 * E"
    using u2 l2 q2 E0 by linarith+
  then have "q - E \<le> 3 * E / 2 ^ 53" and "E - q \<le> 3 * E / 2 ^ 53"
    by (simp_all add: field_simps)
  then have "\<bar>q - E\<bar> \<le> 3 * E / 2 ^ 53" by linarith
  then show ?thesis by (simp add: E_def)
qed

lemma prod_round:
  fixes a m r q :: rat
  assumes a: "0 \<le> a" and m: "0 \<le> m"
    and r: "\<bar>r - a\<bar> \<le> a / 2 ^ 53"
    and q: "\<bar>q - m * r\<bar> \<le> (m * r) / 2 ^ 53"
  shows "\<bar>q - m * a\<bar> \<le> 3 * (m * a) / 2 ^ 53"
proof -
  define E where "E = m * a"
  have E0: "0 \<le> E" using a m by (simp add: E_def)
  have "r - a \<le> a / 2 ^ 53" and "a - r \<le> a / 2 ^ 53" using r by linarith+
  then have rl: "a * (1 - 1 / 2 ^ 53) \<le> r" and ru: "r \<le> a * (1 + 1 / 2 ^ 53)"
    by (simp_all add: algebra_simps)
  have "m * r \<le> m * (a * (1 + 1 / 2 ^ 53))" using m ru by (rule mult_left_mono[rotated])
  then have u1: "m * r \<le> E * (1 + 1 / 2 ^ 53)" by (simp add: E_def algebra_simps)
  have "m * (a * (1 - 1 / 2 ^ 53)) \<le> m * r" using m rl by (rule mult_left_mono[rotated])
  then have l1: "E * (1 - 1 / 2 ^ 53) \<le> m * r" by (simp add: E_def algebra_simps)
  have ql: "m * r - (m * r) / 2 ^ 53 \<le> q" and qu: "q \<le> m * r + (m * r) / 2 ^ 53"
    using q by linarith+
  define X where "X = m * r"
  have u2: "X * 9007199254740992 \<le> E * 9007199254740993"
    using u1 by (simp add: X_def field_simps)
  have l2: "E * 9007199254740991 \<le> X * 9007199254740992"
    using l1 by (simp add: X_def field_simps)
  have q2: "X * 9007199254740991 \<le> q * 9007199254740992" "q * 9007199254740992 \<le> X * 9007199254740993"
    using ql qu by (simp_all add: X_def[symmetric] field_simps)
  have "q * 9007199254740992 \<le> E * 9007199254740992 + 3 * E"
    and "E * 9007199254740992 \<le> q * 9007199254740992 + 3 * E"
    using u2 l2 q2 E0 by linarith+
  then have "q - E \<le> 3 * E / 2 ^ 53" and "E - q \<le> 3 * E / 2 ^ 53"
    by (simp_all add: field_simps)
  then have "\<bar>q - E\<bar> \<le> 3 * E / 2 ^ 53" by linarith
  then show ?thesis by (simp add: E_def)
qed

lemma floor_near:
  fixes q :: rat and N D :: int
  assumes D: "0 < D" and N: "0 \<le> N" and small: "3 * N < 2 ^ 53"
    and q: "\<bar>q - of_int N / of_int D\<bar> \<le> 3 * (of_int N / of_int D) / 2 ^ 53"
  shows "N div D - 1 \<le> \<lfloor>q\<rfloor> \<and> \<lfloor>q\<rfloor> \<le> N div D \<and> (\<not> D dvd N \<longrightarrow> \<lfloor>q\<rfloor> = N div D)"
proof -
  define k where "k = N div D"
  define t where "t = N mod D"
  define d :: rat where "d = 1 / of_int D"
  have d0: "0 < d" using D by (simp add: d_def)
  have N_eq: "N = k * D + t" by (simp add: k_def t_def)
  have t0: "0 \<le> t" and tD: "t \<le> D - 1" using D by (simp_all add: t_def) 
  have E: "of_int N / of_int D = of_int k + of_int t * d"
    using D by (simp add: N_eq d_def field_simps)
  have "(3 * of_int N :: rat) < 2 ^ 53" using small by (metis (no_types, opaque_lifting) of_int_less_iff of_int_mult of_int_numeral of_int_power)
  then have "3 * of_int N * d < 2 ^ 53 * d" using d0 by simp
  then have err: "3 * (of_int N / of_int D) / 2 ^ 53 < d" by (simp add: d_def)
  have td: "of_int t * d \<le> 1 - d"
  proof -
    have "(of_int t :: rat) \<le> of_int D - 1" using tD by (metis of_int_1 of_int_diff of_int_le_iff)
    then have "of_int t * d \<le> (of_int D - 1) * d" using d0 by (intro mult_right_mono) auto
    also have "\<dots> = 1 - d" using D by (simp add: d_def field_simps)
    finally show ?thesis .
  qed
  have td0: "0 \<le> of_int t * d" using t0 d0 by simp
  have d1: "d \<le> 1" using D by (simp add: d_def)
  have qlo: "of_int N / of_int D - d < q" and qhi: "q < of_int N / of_int D + d" using q err by linarith+
  have up: "q < of_int (k + 1)" using qhi td unfolding E by simp
  have lo: "of_int (k - 1) \<le> q" using qlo td0 d1 unfolding E by simp
  have "\<lfloor>q\<rfloor> < k + 1" using up by (simp only: floor_less_iff)
  then have f1: "\<lfloor>q\<rfloor> \<le> k" by simp
  have f2: "k - 1 \<le> \<lfloor>q\<rfloor>" using lo by (simp only: le_floor_iff)
  have f3: "\<lfloor>q\<rfloor> = k" if "\<not> D dvd N"
  proof -
    have "t \<noteq> 0" using that by (auto simp: t_def dvd_eq_mod_eq_0)
    then have "1 \<le> t" using t0 by simp
    then have "(1::rat) \<le> of_int t" by (metis of_int_1 of_int_le_iff)
    then have "d \<le> of_int t * d" using d0 by simp
    then have "of_int k \<le> q" using qlo unfolding E by simp
    then have "k \<le> \<lfloor>q\<rfloor>" by (simp only: le_floor_iff)
    with f1 show ?thesis by simp
  qed
  show ?thesis using f1 f2 f3 unfolding k_def by blast
qed


lemma fl_nonneg: assumes "0 \<le> x" shows "0 \<le> fl x"
proof -
  have "x - fl x \<le> x / 2 ^ 53" using fl_err[OF assms] by linarith
  moreover have "x / 2 ^ 53 \<le> x" using assms by (simp add: field_simps)
  ultimately show ?thesis by linarith
qed

lemma fl_pos_pos: assumes "0 < x" shows "0 < fl x"
proof -
  have "x - fl x \<le> x / 2 ^ 53" using fl_err[of x] assms by linarith
  moreover have "x / 2 ^ 53 < x" using assms by (simp add: field_simps)
  ultimately show ?thesis by linarith
qed

lemma py_int_nonneg: "0 \<le> x \<Longrightarrow> py_int x = \<lfloor>x\<rfloor>"
  by (simp add: py_int_def)

lemma prod_small:
  fixes a b :: int
  assumes "0 \<le> a" "0 \<le> b" "a < 2 ^ 25" "b < 2 ^ 25"
  shows "3 * (a * b) < 2 ^ 53"
proof -
  have "a * b \<le> 2 ^ 25 * 2 ^ 25" using assms by (intro mult_mono) auto
  then show ?thesis by simp
qed

lemma new_size_wide:
  fixes w h m :: int
  assumes h: "0 < h" and m: "0 < m" and hw: "h < w" and mw: "m < w"
    and bw: "w < 2 ^ 25"
  shows "\<exists>s. new_size w h m = Inr (Some (m, s)) \<and> 0 \<le> s \<and>
           m * h div w - 1 \<le> s \<and> s \<le> m * h div w \<and> (\<not> w dvd m * h \<longrightarrow> s = m * h div w)"
proof -
  define a :: rat where "a = of_int w / of_int h"
  define r where "r = fl a"
  define q where "q = fl (of_int m / r)"
  have a0: "0 < a" using h hw by (simp add: a_def)
  have r0: "0 < r" unfolding r_def using a0 by (rule fl_pos_pos)
  have x0: "0 \<le> of_int m / r" using m r0 by simp
  have q0: "0 \<le> q" unfolding q_def using x0 by (rule fl_nonneg)
  have fm: "float_of_int m = of_int m"
  proof (rule float_of_int_exact)
    show "0 \<le> m" using m by simp
    have "m < 2 ^ 25" using mw bw by simp
    then show "m < 2 ^ 53" by simp
  qed
  have ns: "new_size w h m = Inr (Some (m, \<lfloor>q\<rfloor>))"
    using h hw mw r0 q0
    by (simp add: new_size_def int_truediv_def float_div_def fm a_def[symmetric] r_def[symmetric]
        q_def[symmetric] py_int_nonneg)
  have er: "\<bar>r - a\<bar> \<le> a / 2 ^ 53" unfolding r_def using a0 by (intro fl_err) simp
  have eq: "\<bar>q - of_int m / r\<bar> \<le> (of_int m / r) / 2 ^ 53" unfolding q_def using x0 by (rule fl_err)
  have "\<bar>q - of_int m / a\<bar> \<le> 3 * (of_int m / a) / 2 ^ 53"
    using a0 _ er eq by (rule quot_round) (use m in simp)
  moreover have "of_int m / a = (of_int (m * h) :: rat) / of_int w" by (simp add: a_def)
  ultimately have e: "\<bar>q - of_int (m * h) / of_int w\<bar> \<le> 3 * (of_int (m * h) / of_int w) / 2 ^ 53"
    by simp
  have w0: "0 < w" using h hw by simp
  have N0: "0 \<le> m * h" using m h by simp
  have sm: "3 * (m * h) < 2 ^ 53" using m h mw hw bw by (intro prod_small) auto
  have "0 \<le> \<lfloor>q\<rfloor>" using q0 by simp
  then show ?thesis using floor_near[OF w0 N0 sm e] ns by blast
qed

lemma new_size_tall:
  fixes w h m :: int
  assumes w: "0 < w" and m: "0 < m" and wh: "w \<le> h" and mh: "m < h"
    and bh: "h < 2 ^ 25"
  shows "\<exists>s. new_size w h m = Inr (Some (s, m)) \<and> 0 \<le> s \<and>
           m * w div h - 1 \<le> s \<and> s \<le> m * w div h \<and> (\<not> h dvd m * w \<longrightarrow> s = m * w div h)"
proof -
  define a :: rat where "a = of_int w / of_int h"
  define r where "r = fl a"
  define q where "q = fl (of_int m * r)"
  have h0: "0 < h" using w wh by simp
  have a0: "0 < a" using w h0 by (simp add: a_def)
  have r0: "0 < r" unfolding r_def using a0 by (rule fl_pos_pos)
  have x0: "0 \<le> of_int m * r" using m r0 by simp
  have q0: "0 \<le> q" unfolding q_def using x0 by (rule fl_nonneg)
  have fm: "float_of_int m = of_int m"
  proof (rule float_of_int_exact)
    show "0 \<le> m" using m by simp
    have "m < 2 ^ 25" using mh bh by simp
    then show "m < 2 ^ 53" by simp
  qed
  have ns: "new_size w h m = Inr (Some (\<lfloor>q\<rfloor>, m))"
    using h0 wh mh q0
    by (simp add: new_size_def int_truediv_def float_mul_def fm a_def[symmetric] r_def[symmetric]
        q_def[symmetric] py_int_nonneg)
  have er: "\<bar>r - a\<bar> \<le> a / 2 ^ 53" unfolding r_def using a0 by (intro fl_err) simp
  have eq: "\<bar>q - of_int m * r\<bar> \<le> (of_int m * r) / 2 ^ 53" unfolding q_def using x0 by (rule fl_err)
  have "\<bar>q - of_int m * a\<bar> \<le> 3 * (of_int m * a) / 2 ^ 53"
    using _ _ er eq by (rule prod_round) (use m a0 in simp_all)
  moreover have "of_int m * a = (of_int (m * w) :: rat) / of_int h" by (simp add: a_def)
  ultimately have e: "\<bar>q - of_int (m * w) / of_int h\<bar> \<le> 3 * (of_int (m * w) / of_int h) / 2 ^ 53"
    by simp
  have N0: "0 \<le> m * w" using m w by simp
  have sm: "3 * (m * w) < 2 ^ 53" using m w mh wh bh by (intro prod_small) auto
  have "0 \<le> \<lfloor>q\<rfloor>" using q0 by simp
  then show ?thesis using floor_near[OF h0 N0 sm e] ns by blast
qed

lemma scaled_le:
  fixes m a b :: int
  assumes "0 \<le> m" "a \<le> b" "0 < b"
  shows "m * a div b \<le> m"
proof -
  have "m * a \<le> m * b" using assms by (intro mult_left_mono) auto
  then have "m * a div b \<le> m * b div b" using assms(3) by (intro zdiv_mono1) auto
  then show ?thesis using assms(3) by simp
qed

section \<open>Properties of resize_image\<close>

text \<open>
  C5. When both sides are at most \<open>max_dim\<close>, \<^verbatim>\<open>resize_image\<close> returns the image it was
  given, whatever the resampling routine is: the routine is not called.
\<close>

theorem resize_image_small_identity:
  "int (width img) \<le> max_dim \<Longrightarrow> int (height img) \<le> max_dim \<Longrightarrow>
   resize_image resample img max_dim = Inr img"
  by (simp add: resize_image_def new_size_def)

theorem resize_image_small_identity_witness:
  "resize_image (\<lambda>i sz. Inl (Raised ''resize called''))
     \<lparr>width = 2, height = 1, mode = RGBA, pixels = [(1, 2, 3, 255), (4, 5, 6, 0)]\<rparr> 2500
   = Inr \<lparr>width = 2, height = 1, mode = RGBA, pixels = [(1, 2, 3, 255), (4, 5, 6, 0)]\<rparr>"
  by (rule resize_image_small_identity) simp_all

lemma resize_image_strict_positive:
  assumes "0 < width img" and "0 < height img"
    and "resize_image strict_resample img max_dim = Inr r"
  shows "1 \<le> width r \<and> 1 \<le> height r"
proof (cases "new_size (int (width img)) (int (height img)) max_dim")
  case (Inl e)
  then show ?thesis using assms(3) by (simp add: resize_image_def)
next
  case (Inr res)
  show ?thesis
  proof (cases res)
    case None
    then have "r = img" using Inr assms(3) by (simp add: resize_image_def)
    then show ?thesis using assms(1,2) by simp
  next
    case (Some sz)
    then have "strict_resample img sz = Inr r" using Inr assms(3) by (simp add: resize_image_def)
    then have "1 \<le> fst sz" "1 \<le> snd sz" "r = img\<lparr>width := nat (fst sz), height := nat (snd sz)\<rparr>"
      by (auto simp: strict_resample_def split: if_splits)
    then show ?thesis by (simp add: Suc_le_eq)
  qed
qed

text \<open>
  C10, as the code has it. For a 5001 x 2 image and the program's limit of 2500 the
  requested height is \<open>int(2500 / 2500.5) = 0\<close>: \<^verbatim>\<open>resize_image\<close> has no guard of its own, asks
  the resampler for a 2500 x 0 image and returns whatever the resampler returns for that
  size. With a resampler that refuses sizes with a side below 1, \<^verbatim>\<open>resize_image\<close> never
  returns a bitmap with a side below 1 for a bitmap with positive sides: the call raises
  instead.
\<close>

theorem resize_image_zero_height:
  "new_size 5001 2 MAX_IMAGE_DIM = Inr (Some (2500, 0)) \<and>
   resize_image resample \<lparr>width = 5001, height = 2, mode = RGBA, pixels = pxs\<rparr> MAX_IMAGE_DIM
     = resample \<lparr>width = 5001, height = 2, mode = RGBA, pixels = pxs\<rparr> (2500, 0) \<and>
   (\<forall>img max_dim r.
      0 < width img \<and> 0 < height img \<and> resize_image strict_resample img max_dim = Inr r \<longrightarrow>
      1 \<le> width r \<and> 1 \<le> height r)"
proof -
  have n: "new_size 5001 2 2500 = Inr (Some (2500, 0))" by code_simp
  have "\<forall>img max_dim r.
      0 < width img \<and> 0 < height img \<and> resize_image strict_resample img max_dim = Inr r \<longrightarrow>
      1 \<le> width r \<and> 1 \<le> height r"
    using resize_image_strict_positive by blast
  then show ?thesis using n by (simp add: resize_image_def MAX_IMAGE_DIM_def)
qed

lemma new_size_3000_2000: "new_size 3000 2000 2500 = Inr (Some (2500, 1666))"
  by code_simp

theorem resize_image_zero_height_witness:
  "resize_image strict_resample
     \<lparr>width = 3000, height = 2000, mode = RGBA, pixels = replicate (3000 * 2000) (0, 0, 0, 255)\<rparr> 2500
   = Inr \<lparr>width = 2500, height = 1666, mode = RGBA, pixels = replicate (3000 * 2000) (0, 0, 0, 255)\<rparr> \<and>
   (1 :: nat) \<le> width \<lparr>width = 2500, height = 1666, mode = RGBA,
                      pixels = replicate (3000 * 2000) ((0, 0, 0, 255) :: pixel)\<rparr> \<and>
   (1 :: nat) \<le> height \<lparr>width = 2500, height = 1666, mode = RGBA,
                       pixels = replicate (3000 * 2000) ((0, 0, 0, 255) :: pixel)\<rparr>"
proof -
  let ?img = "\<lparr>width = 3000, height = 2000, mode = RGBA,
               pixels = replicate (3000 * 2000) ((0, 0, 0, 255) :: pixel)\<rparr>"
  let ?r = "\<lparr>width = 2500, height = 1666, mode = RGBA,
             pixels = replicate (3000 * 2000) ((0, 0, 0, 255) :: pixel)\<rparr>"
  have e: "resize_image strict_resample ?img 2500 = Inr ?r"
    by (simp add: resize_image_def new_size_3000_2000 strict_resample_def)
  have "\<forall>img max_dim r.
      0 < width img \<and> 0 < height img \<and> resize_image strict_resample img max_dim = Inr r \<longrightarrow>
      1 \<le> width r \<and> 1 \<le> height r"
    using resize_image_zero_height [of strict_resample "[]"] by blast
  then have "0 < width ?img \<and> 0 < height ?img \<and> resize_image strict_resample ?img 2500 = Inr ?r \<longrightarrow>
      1 \<le> width ?r \<and> 1 \<le> height ?r"
    by blast
  then have "1 \<le> width ?r \<and> 1 \<le> height ?r" using e by simp
  then show ?thesis using e by simp
qed

text \<open>
  C10 as stated fails: on the 5001 x 2 image the resize stage does not return a bitmap with
  a zero side. The resampler refuses the size 2500 x 0, so \<^verbatim>\<open>resize_image\<close> raises, and the
  \<^verbatim>\<open>try\<close> block of \<^verbatim>\<open>process_image\<close> ends with that exception.
\<close>

theorem resize_image_zero_height_counterexample:
  "resize_image strict_resample
     \<lparr>width = 5001, height = 2, mode = RGBA, pixels = replicate (5001 * 2) (0, 0, 0, 255)\<rparr>
     MAX_IMAGE_DIM
   = Inl (Raised ''height and width must be > 0'') \<and>
   process_image_body
     ((plain_externals
         \<lparr>width = 5001, height = 2, mode = RGBA, pixels = replicate (5001 * 2) (0, 0, 0, 255)\<rparr>
         (0, 0, 0, 255))\<lparr>resize_lanczos := strict_resample\<rparr>)
     [] default_options
   = Inl (Raised ''height and width must be > 0'')"
proof -
  have n: "new_size 5001 2 2500 = Inr (Some (2500, 0))" by code_simp
  show ?thesis
    by (simp add: process_image_body_def plain_externals_def bind_exn_def resize_image_def n
        strict_resample_def MAX_IMAGE_DIM_def)
qed

text \<open>
  C4, as the code has it. When a side exceeds \<open>max_dim\<close>, the longer side of the requested
  size is \<open>max_dim\<close> and the shorter side \<open>s\<close> is the proportional value
  \<open>max_dim * short / long\<close> cut down by \<^verbatim>\<open>int\<close>, never rounded up: \<open>s\<close> is the floor of
  the exact value, or one less where the float quotient falls just below a whole exact
  value. Sides are taken below \<open>2 ^ 25\<close>, where the rounding error of the two float
  operations stays under one part in \<open>long\<close>.
\<close>

theorem resize_image_long_short:
  assumes "0 < width img" and "0 < height img" and "0 < max_dim"
    and "max_dim < int (width img) \<or> max_dim < int (height img)"
    and "width img < 2 ^ 25" and "height img < 2 ^ 25"
  shows "\<exists>s. resize_image resample img max_dim =
             resample img (if height img < width img then (max_dim, s) else (s, max_dim)) \<and>
           0 \<le> s \<and> s \<le> max_dim \<and>
           max_dim * int (min (width img) (height img)) div int (max (width img) (height img)) - 1 \<le> s \<and>
           s \<le> max_dim * int (min (width img) (height img)) div int (max (width img) (height img)) \<and>
           (\<not> int (max (width img) (height img)) dvd max_dim * int (min (width img) (height img)) \<longrightarrow>
              s = max_dim * int (min (width img) (height img)) div int (max (width img) (height img)))"
proof (cases "height img < width img")
  case True
  define w where "w = int (width img)"
  define h where "h = int (height img)"
  have h0: "0 < h" and hw: "h < w" using assms(2) True by (simp_all add: w_def h_def)
  have mw: "max_dim < w" using assms(4) hw by (auto simp: w_def h_def)
  have bw: "w < 2 ^ 25" using assms(5) by (simp add: w_def)
  obtain s where s: "new_size w h max_dim = Inr (Some (max_dim, s))" "0 \<le> s"
    "max_dim * h div w - 1 \<le> s" "s \<le> max_dim * h div w"
    "\<not> w dvd max_dim * h \<longrightarrow> s = max_dim * h div w"
    using new_size_wide[OF h0 assms(3) hw mw bw] by blast
  have le: "max_dim * h div w \<le> max_dim" using assms(3) hw h0 by (intro scaled_le) auto
  have mn: "int (min (width img) (height img)) = h" "int (max (width img) (height img)) = w"
    using True by (simp_all add: w_def h_def)
  have r: "resize_image resample img max_dim = resample img (max_dim, s)"
    using s(1) by (simp add: resize_image_def w_def h_def)
  show ?thesis unfolding mn using True r s le by (intro exI[of _ s]) auto
next
  case False
  define w where "w = int (width img)"
  define h where "h = int (height img)"
  have w0: "0 < w" and wh: "w \<le> h" using assms(1) False by (simp_all add: w_def h_def)
  have mh: "max_dim < h" using assms(4) wh by (auto simp: w_def h_def)
  have bh: "h < 2 ^ 25" using assms(6) by (simp add: h_def)
  obtain s where s: "new_size w h max_dim = Inr (Some (s, max_dim))" "0 \<le> s"
    "max_dim * w div h - 1 \<le> s" "s \<le> max_dim * w div h"
    "\<not> h dvd max_dim * w \<longrightarrow> s = max_dim * w div h"
    using new_size_tall[OF w0 assms(3) wh mh bh] by blast
  have le: "max_dim * w div h \<le> max_dim" using assms(3) wh w0 by (intro scaled_le) auto
  have mn: "int (min (width img) (height img)) = w" "int (max (width img) (height img)) = h"
    using False by (simp_all add: w_def h_def)
  have r: "resize_image resample img max_dim = resample img (s, max_dim)"
    using s(1) by (simp add: resize_image_def w_def h_def)
  show ?thesis unfolding mn using False r s le by (intro exI[of _ s]) auto
qed

theorem resize_image_long_short_witness:
  "\<exists>s. resize_image (\<lambda>i sz. Inr (i\<lparr>width := nat (fst sz), height := nat (snd sz)\<rparr>))
          \<lparr>width = 2525, height = 1717, mode = RGBA, pixels = replicate (2525 * 1717) (0, 0, 0, 255)\<rparr>
          2500
        = Inr \<lparr>width = 2500, height = nat s, mode = RGBA,
               pixels = replicate (2525 * 1717) (0, 0, 0, 255)\<rparr> \<and> 1699 \<le> s \<and> s \<le> 1700"
  using resize_image_long_short [of
      "\<lparr>width = 2525, height = 1717, mode = RGBA, pixels = replicate (2525 * 1717) (0, 0, 0, 255)\<rparr>"
      2500 "\<lambda>i sz. Inr (i\<lparr>width := nat (fst sz), height := nat (snd sz)\<rparr>)"]
  by simp blast

text \<open>
  C4 as stated fails: for a 3000 x 2000 image the proportional height is 1666.67, which
  rounds to 1667, and the code asks for 1666.
\<close>

theorem resize_image_rounds_counterexample:
  "new_size 3000 2000 2500 = Inr (Some (2500, 1666)) \<and>
   round ((2500 :: rat) / (3000 / 2000)) = 1667"
proof
  show "new_size 3000 2000 2500 = Inr (Some (2500, 1666))" by code_simp
  show "round ((2500 :: rat) / (3000 / 2000)) = 1667" by (simp add: round_def floor_unique)
qed

section \<open>Properties of the compositing step\<close>

lemma bind_exn_simps: "bind_exn (Inl e) f = Inl e" "bind_exn (Inr x) f = f x"
  by (simp_all add: bind_exn_def)

lemma bind_exn_Inr_iff: "bind_exn m f = Inr y \<longleftrightarrow> (\<exists>x. m = Inr x \<and> f x = Inr y)"
  by (cases m) (simp_all add: bind_exn_def)

lemma unat_byte_le: "unat (x :: byte) \<le> 255"
  using unsigned_less[of x, where 'a=nat] by simp

lemma blend_sum_le:
  fixes a f b :: nat
  assumes "a \<le> 255" "f \<le> 255" "b \<le> 255"
  shows "f * a + b * (255 - a) \<le> 255 * 255"
proof -
  have "f * a \<le> 255 * a" using assms by (intro mult_right_mono) auto
  moreover have "b * (255 - a) \<le> 255 * (255 - a)" using assms by (intro mult_right_mono) auto
  moreover have "255 * a + 255 * (255 - a) = (255 :: nat) * 255"
    using assms(1) by (simp add: diff_mult_distrib2)
  ultimately show ?thesis by linarith
qed

lemma blend_channel_unat:
  "unat (blend_channel a f b) = (unat f * unat a + unat b * (255 - unat a) + 127) div 255"
proof -
  define x where "x = unat f * unat a + unat b * (255 - unat a)"
  have "x \<le> 255 * 255" unfolding x_def by (intro blend_sum_le unat_byte_le)
  then have "(x + 127) div 255 < 256" by simp
  then have "unat (of_nat ((x + 127) div 255) :: byte) = (x + 127) div 255"
    by (simp add: unat_of_nat)
  then show ?thesis by (simp add: blend_channel_def x_def)
qed


lemma blend_exact:
  fixes a f b :: nat
  assumes "a \<le> 255"
  shows "(of_nat f :: rat) * (of_nat a / 255) + of_nat b * (1 - of_nat a / 255)
         = of_nat (f * a + b * (255 - a)) / 255"
proof -
  define A :: rat where "A = of_nat a"
  define C :: rat where "C = of_nat (255 - a)"
  have C: "255 - A = C" using assms by (simp add: A_def C_def of_nat_diff)
  have "of_nat f * (A / 255) + of_nat b * (1 - A / 255)
        = (of_nat f * A + of_nat b * (255 - A)) / 255"
    by (simp add: field_simps)
  then have "of_nat f * (A / 255) + of_nat b * (1 - A / 255) = (of_nat f * A + of_nat b * C) / 255"
    by (simp only: C)
  then show ?thesis by (simp add: A_def C_def)
qed

lemma blend_channel_near:
  "\<bar>of_nat (unat (blend_channel a f b)) - alpha_blend a f b\<bar> < 1 / 2"
proof -
  define x where "x = unat f * unat a + unat b * (255 - unat a)"
  define k where "k = (x + 127) div 255"
  define m where "m = (x + 127) mod 255"
  have k: "unat (blend_channel a f b) = k" by (simp add: blend_channel_unat x_def k_def)
  have km: "255 * k + m = x + 127" unfolding k_def m_def by simp
  have m: "m < 255" unfolding m_def by simp
  have "(of_nat (255 * k + m) :: rat) = of_nat (x + 127)" using km by simp
  then have e: "255 * (of_nat k :: rat) + of_nat m = of_nat x + 127" by simp
  have m0: "(0 :: rat) \<le> of_nat m" by simp
  have "(of_nat m :: rat) < of_nat 255" using m by (simp only: of_nat_less_iff)
  then have m1: "(of_nat m :: rat) < 255" by simp
  have "alpha_blend a f b = of_nat x / 255"
    unfolding alpha_blend_def x_def by (rule blend_exact) (rule unat_byte_le)
  then have ab: "alpha_blend a f b = of_nat x / 255" .
  have "of_nat k - of_nat x / 255 < (1 / 2 :: rat)" "of_nat x / 255 - of_nat k  < (1 / 2 :: rat)"
    using e m0 m1 by (simp_all add: field_simps)
  then have "\<bar>of_nat k - of_nat x / 255\<bar> < (1 / 2 :: rat)" by linarith
  then show ?thesis unfolding k ab .
qed

text \<open>
  C6. With the background \<open>transparent\<close> the compositing step hands back the foreground
  bitmap itself: same mode, same pixels, same alpha.
\<close>

theorem composite_transparent_identity:
  "composite ext ''transparent'' fg = Inr fg"
  by (simp add: composite_def)

lemma composite_color:
  assumes "color \<noteq> ''transparent''" and "getrgb ext color = Inr c"
  shows "composite ext color fg =
    Inr (convert RGB (paste (new_image (width fg, height fg) c) fg fg))"
  using assms by (simp add: composite_def bind_exn_simps)

lemma composite_color_pixels:
  assumes "color \<noteq> ''transparent''" and "getrgb ext color = Inr c"
    and "length (pixels fg) = width fg * height fg"
    and "composite ext color fg = Inr out"
  shows "mode out = RGB" and "width out = width fg" and "height out = height fg"
    and "length (pixels out) = length (pixels fg)"
    and "i < length (pixels fg) \<Longrightarrow>
         pixels out ! i = opaque (blend_pixel (pixels fg ! i) (pixels fg ! i) c)"
proof -
  have out: "out = convert RGB (paste (new_image (width fg, height fg) c) fg fg)"
    using composite_color[OF assms(1,2), of fg] assms(4) by simp
  show "mode out = RGB" "width out = width fg" "height out = height fg"
    by (simp_all add: out convert_def paste_def new_image_def)
  show "length (pixels out) = length (pixels fg)"
    using assms(3) by (simp add: out convert_def paste_def new_image_def)
  show "pixels out ! i = opaque (blend_pixel (pixels fg ! i) (pixels fg ! i) c)"
    if "i < length (pixels fg)"
    using that assms(3) by (simp add: out convert_def paste_def new_image_def)
qed

text \<open>
  C7. With a colour other than \<open>transparent\<close> that Pillow can parse, the result is an RGB
  bitmap of the size of the foreground; every pixel has alpha 255 and each of its colour
  channels is the channel level nearest to the blend
  \<open>fg * (a / 255) + bg * (1 - a / 255)\<close> of the foreground pixel over the colour.
\<close>

theorem composite_color_blend:
  assumes "color \<noteq> ''transparent''" and "getrgb ext color = Inr (br, bg, bb, ba)"
    and "mode fg = RGBA" and "length (pixels fg) = width fg * height fg"
  shows "\<exists>out. composite ext color fg = Inr out \<and> mode out = RGB \<and>
           width out = width fg \<and> height out = height fg \<and>
           length (pixels out) = length (pixels fg) \<and>
           (\<forall>i < length (pixels fg).
              case pixels fg ! i of (fr, fg', fb, fa) \<Rightarrow>
              case pixels out ! i of (r, g, b, a) \<Rightarrow>
                a = 255 \<and>
                \<bar>of_nat (unat r) - alpha_blend fa fr br\<bar> < 1 / 2 \<and>
                \<bar>of_nat (unat g) - alpha_blend fa fg' bg\<bar> < 1 / 2 \<and>
                \<bar>of_nat (unat b) - alpha_blend fa fb bb\<bar> < 1 / 2)"
proof -
  define out where "out = convert RGB (paste (new_image (width fg, height fg) (br, bg, bb, ba)) fg fg)"
  have c: "composite ext color fg = Inr out"
    unfolding out_def using assms(1,2) by (rule composite_color)
  note p = composite_color_pixels[OF assms(1,2,4) c]
  have "case pixels fg ! i of (fr, fg', fb, fa) \<Rightarrow>
        case pixels out ! i of (r, g, b, a) \<Rightarrow>
          a = 255 \<and>
          \<bar>of_nat (unat r) - alpha_blend fa fr br\<bar> < 1 / 2 \<and>
          \<bar>of_nat (unat g) - alpha_blend fa fg' bg\<bar> < 1 / 2 \<and>
          \<bar>of_nat (unat b) - alpha_blend fa fb bb\<bar> < 1 / 2"
    if "i < length (pixels fg)" for i
  proof -
    obtain fr fg' fb fa where f: "pixels fg ! i = (fr, fg', fb, fa)"
      by (cases "pixels fg ! i") auto
    have "pixels out ! i =
      (blend_channel fa fr br, blend_channel fa fg' bg, blend_channel fa fb bb, 255)"
      using p(5)[OF that] by (simp add: f blend_pixel_def opaque_def)
    then show ?thesis
      using blend_channel_near[of fa fr br] blend_channel_near[of fa fg' bg]
        blend_channel_near[of fa fb bb]
      by (simp add: f)
  qed
  then show ?thesis using c p(1-4) by blast
qed

theorem composite_color_blend_witness:
  "\<exists>out. composite (plain_externals \<lparr>width = 1, height = 1, mode = RGBA, pixels = [(10, 20, 30, 128)]\<rparr>
             (30, 30, 30, 255)) ''#1E1E1E''
           \<lparr>width = 1, height = 1, mode = RGBA, pixels = [(10, 20, 30, 128)]\<rparr> = Inr out \<and>
         mode out = RGB \<and> length (pixels out) = 1"
  using composite_color_blend [of "''#1E1E1E''"
      "plain_externals \<lparr>width = 1, height = 1, mode = RGBA, pixels = [(10, 20, 30, 128)]\<rparr>
         (30, 30, 30, 255)" 30 30 30 255
      "\<lparr>width = 1, height = 1, mode = RGBA, pixels = [(10, 20, 30, 128)]\<rparr>"]
  by (simp add: plain_externals_def) blast

text \<open>
  C3, evaluated. The colour \<open>#00000000\<close> has alpha 0. The code compares the colour with
  the string \<open>transparent\<close> only, so it blends the foreground over the colour and converts
  to RGB, where the transparent setting returns the RGBA foreground as it is.
\<close>

theorem composite_alpha0_not_transparent:
  "composite (plain_externals \<lparr>width = 1, height = 1, mode = RGBA, pixels = [(10, 20, 30, 128)]\<rparr>
       (0, 0, 0, 0)) ''#00000000''
     \<lparr>width = 1, height = 1, mode = RGBA, pixels = [(10, 20, 30, 128)]\<rparr>
   = Inr \<lparr>width = 1, height = 1, mode = RGB, pixels = [(5, 10, 15, 255)]\<rparr> \<and>
   composite (plain_externals \<lparr>width = 1, height = 1, mode = RGBA, pixels = [(10, 20, 30, 128)]\<rparr>
       (0, 0, 0, 0)) ''transparent''
     \<lparr>width = 1, height = 1, mode = RGBA, pixels = [(10, 20, 30, 128)]\<rparr>
   = Inr \<lparr>width = 1, height = 1, mode = RGBA, pixels = [(10, 20, 30, 128)]\<rparr> \<and>
   file_format (default_options\<lparr>bg_color := ''#00000000''\<rparr>) = ''JPEG''"
  by (simp add: composite_def plain_externals_def bind_exn_simps new_image_def paste_def
      convert_def blend_pixel_def blend_channel_def opaque_def file_format_def default_options_def)

section \<open>Properties of the enhancement step\<close>

lemma clamp_channel_range: "0 \<le> clamp_channel v \<and> clamp_channel v \<le> 255"
  by (simp add: clamp_channel_def)

lemma uint_clamp_channel: "uint (of_int (clamp_channel v) :: byte) = clamp_channel v"
proof -
  have "0 \<le> clamp_channel v" "clamp_channel v < 2 ^ LENGTH(8)"
    using clamp_channel_range[of v] by simp_all
  then show ?thesis by (simp add: uint_word_of_int)
qed

lemma contrast_channel_uint:
  "uint (contrast_channel g factor v) =
   clamp_channel (py_int (of_int (uint g) + factor * (of_int (uint v) - of_int (uint g))))"
  by (simp add: contrast_channel_def uint_clamp_channel)

lemma contrast_channel_cases:
  fixes g v :: byte and factor :: rat
  defines "x \<equiv> of_int (uint g) + factor * (of_int (uint v) - of_int (uint g))"
  shows "x < 1 \<Longrightarrow> uint (contrast_channel g factor v) = 0"
    and "255 \<le> x \<Longrightarrow> uint (contrast_channel g factor v) = 255"
    and "1 \<le> x \<Longrightarrow> x < 255 \<Longrightarrow>
         of_int (uint (contrast_channel g factor v)) \<le> x \<and>
         x < of_int (uint (contrast_channel g factor v)) + 1"
proof -
  have u: "uint (contrast_channel g factor v) = clamp_channel (py_int x)"
    by (simp add: contrast_channel_uint x_def)
  show "uint (contrast_channel g factor v) = 0" if "x < 1"
  proof (cases "0 \<le> x")
    case True
    then have "\<lfloor>x\<rfloor> = 0" using that by (simp add: floor_unique)
    then show ?thesis using True by (simp add: u py_int_def clamp_channel_def)
  next
    case False
    then have "\<lceil>x\<rceil> \<le> 0" by (simp add: ceiling_le_iff)
    then show ?thesis using False by (simp add: u py_int_def clamp_channel_def)
  qed
  show "uint (contrast_channel g factor v) = 255" if "255 \<le> x"
  proof -
    have "255 \<le> \<lfloor>x\<rfloor>" using that by (simp add: le_floor_iff)
    then show ?thesis using that by (simp add: u py_int_def clamp_channel_def)
  qed
  show "of_int (uint (contrast_channel g factor v)) \<le> x \<and>
        x < of_int (uint (contrast_channel g factor v)) + 1" if "1 \<le> x" "x < 255"
  proof -
    have "1 \<le> \<lfloor>x\<rfloor>" using that(1) by (simp add: le_floor_iff)
    moreover have "\<lfloor>x\<rfloor> < 255" using that(2) by (simp add: floor_less_iff)
    ultimately have "uint (contrast_channel g factor v) = \<lfloor>x\<rfloor>"
      using that by (simp add: u py_int_def clamp_channel_def)
    then show ?thesis using floor_correct[of x] by simp
  qed
qed

text \<open>
  C8. The filters run in the order sharpen, contrast; a filter whose flag is off is not
  applied at all, so with both flags off the bitmap comes back unchanged. Contrast is
  called with the factor 1.2. In it each colour channel \<open>v\<close> is taken to
  \<open>x = g + 1.2 * (v - g)\<close>, the deviation from the reference gray \<open>g\<close> multiplied by 1.2;
  the result is 0 where \<open>x < 1\<close>, 255 where \<open>x \<ge> 255\<close>, and otherwise \<open>x\<close> cut to a whole
  level. The alpha channel and the size stay as they are.
\<close>

theorem enhance_order:
  "enhance ext opts img =
     (if use_sharpen opts then
        (if use_contrast opts then
           bind_exn (filter_sharpen ext img) (\<lambda>sharpened. Inr (contrast_enhance ext sharpened (6 / 5)))
         else filter_sharpen ext img)
      else
        (if use_contrast opts then Inr (contrast_enhance ext img (6 / 5)) else Inr img)) \<and>
   width (contrast_enhance ext img (6 / 5)) = width img \<and>
   height (contrast_enhance ext img (6 / 5)) = height img \<and>
   mode (contrast_enhance ext img (6 / 5)) = mode img \<and>
   length (pixels (contrast_enhance ext img (6 / 5))) = length (pixels img) \<and>
   (\<forall>i < length (pixels img).
      case pixels img ! i of (r, g, b, a) \<Rightarrow>
        pixels (contrast_enhance ext img (6 / 5)) ! i =
          (contrast_channel (reference_gray ext img) (6 / 5) r,
           contrast_channel (reference_gray ext img) (6 / 5) g,
           contrast_channel (reference_gray ext img) (6 / 5) b, a)) \<and>
   (\<forall>gray v. let x = (of_int (uint gray) :: rat) + 6 / 5 * (of_int (uint v) - of_int (uint gray)) in
      (x < 1 \<longrightarrow> uint (contrast_channel gray (6 / 5) v) = 0) \<and>
      (255 \<le> x \<longrightarrow> uint (contrast_channel gray (6 / 5) v) = 255) \<and>
      (1 \<le> x \<and> x < 255 \<longrightarrow>
         of_int (uint (contrast_channel gray (6 / 5) v)) \<le> x \<and>
         x < of_int (uint (contrast_channel gray (6 / 5) v)) + 1))"
proof (intro conjI)
  show "enhance ext opts img =
     (if use_sharpen opts then
        (if use_contrast opts then
           bind_exn (filter_sharpen ext img) (\<lambda>sharpened. Inr (contrast_enhance ext sharpened (6 / 5)))
         else filter_sharpen ext img)
      else
        (if use_contrast opts then Inr (contrast_enhance ext img (6 / 5)) else Inr img))"
    by (cases "filter_sharpen ext img") (simp_all add: enhance_def bind_exn_simps)
  show "width (contrast_enhance ext img (6 / 5)) = width img"
    "height (contrast_enhance ext img (6 / 5)) = height img"
    "mode (contrast_enhance ext img (6 / 5)) = mode img"
    "length (pixels (contrast_enhance ext img (6 / 5))) = length (pixels img)"
    by (simp_all add: contrast_enhance_def)
  show "\<forall>i < length (pixels img).
      case pixels img ! i of (r, g, b, a) \<Rightarrow>
        pixels (contrast_enhance ext img (6 / 5)) ! i =
          (contrast_channel (reference_gray ext img) (6 / 5) r,
           contrast_channel (reference_gray ext img) (6 / 5) g,
           contrast_channel (reference_gray ext img) (6 / 5) b, a)"
    by (auto simp: contrast_enhance_def contrast_pixel_def split: prod.splits)
  show "\<forall>gray v. let x = (of_int (uint gray) :: rat) + 6 / 5 * (of_int (uint v) - of_int (uint gray)) in
      (x < 1 \<longrightarrow> uint (contrast_channel gray (6 / 5) v) = 0) \<and>
      (255 \<le> x \<longrightarrow> uint (contrast_channel gray (6 / 5) v) = 255) \<and>
      (1 \<le> x \<and> x < 255 \<longrightarrow>
         of_int (uint (contrast_channel gray (6 / 5) v)) \<le> x \<and>
         x < of_int (uint (contrast_channel gray (6 / 5) v)) + 1)"
    unfolding Let_def
    using contrast_channel_cases[where factor = "6 / 5"] by blast
qed

theorem enhance_order_witness:
  "enhance (plain_externals \<lparr>width = 1, height = 1, mode = RGBA, pixels = [(200, 100, 50, 255)]\<rparr>
              (0, 0, 0, 255))
     (default_options\<lparr>use_sharpen := True, use_contrast := True\<rparr>)
     \<lparr>width = 1, height = 1, mode = RGBA, pixels = [(200, 100, 50, 255)]\<rparr>
   = Inr (contrast_enhance
       (plain_externals \<lparr>width = 1, height = 1, mode = RGBA, pixels = [(200, 100, 50, 255)]\<rparr>
          (0, 0, 0, 255))
       \<lparr>width = 1, height = 1, mode = RGBA, pixels = [(200, 100, 50, 255)]\<rparr> (6 / 5)) \<and>
   uint (contrast_channel 128 (6 / 5) 200) = 214"
proof -
  let ?img = "\<lparr>width = 1, height = 1, mode = RGBA, pixels = [(200, 100, 50, 255) :: pixel]\<rparr>"
  let ?ext = "plain_externals ?img (0, 0, 0, 255)"
  let ?opts = "default_options\<lparr>use_sharpen := True, use_contrast := True\<rparr>"
  note t = enhance_order [of ?ext ?opts ?img]
  have a: "enhance ?ext ?opts ?img = Inr (contrast_enhance ?ext ?img (6 / 5))"
    using t by (simp add: plain_externals_def bind_exn_simps)
  have "\<forall>gray v. let x = (of_int (uint gray) :: rat) + 6 / 5 * (of_int (uint v) - of_int (uint gray)) in
      (x < 1 \<longrightarrow> uint (contrast_channel gray (6 / 5) v) = 0) \<and>
      (255 \<le> x \<longrightarrow> uint (contrast_channel gray (6 / 5) v) = 255) \<and>
      (1 \<le> x \<and> x < 255 \<longrightarrow>
         of_int (uint (contrast_channel gray (6 / 5) v)) \<le> x \<and>
         x < of_int (uint (contrast_channel gray (6 / 5) v)) + 1)"
    using t by blast
  then have "let x = (of_int (uint (128 :: byte)) :: rat)
                 + 6 / 5 * (of_int (uint (200 :: byte)) - of_int (uint (128 :: byte))) in
      (1 \<le> x \<and> x < 255 \<longrightarrow>
         of_int (uint (contrast_channel 128 (6 / 5) 200)) \<le> x \<and>
         x < of_int (uint (contrast_channel 128 (6 / 5) 200)) + 1)"
    unfolding Let_def by blast
  then have b: "(of_int (uint (contrast_channel 128 (6 / 5) 200)) :: rat) \<le> 1072 / 5"
    "(1072 / 5 :: rat) < of_int (uint (contrast_channel 128 (6 / 5) 200) + 1)"
    by (simp_all add: Let_def)
  have f: "\<lfloor>1072 / 5 :: rat\<rfloor> = 214" by (simp add: floor_unique)
  have "uint (contrast_channel 128 (6 / 5) 200) \<le> \<lfloor>1072 / 5 :: rat\<rfloor>"
    using b(1) by (simp only: le_floor_iff)
  moreover have "\<lfloor>1072 / 5 :: rat\<rfloor> < uint (contrast_channel 128 (6 / 5) 200) + 1"
    using b(2) by (simp only: floor_less_iff)
  ultimately have "uint (contrast_channel 128 (6 / 5) 200) = 214" unfolding f by simp
  with a show ?thesis by simp
qed

section \<open>Properties of process_image\<close>

text \<open>
  C1, as the code has it. When the pipeline succeeds, the first image of the pair is the
  bitmap after decoding, conversion to RGBA and resizing, before the sharpen and contrast
  filters; the filters, background removal and compositing go into the second image only.
\<close>

theorem process_image_body_returns_resized:
  assumes "process_image_body ext image_bytes opts = Inr (pre, final)"
  shows "\<exists>original processed removed.
           image_open ext image_bytes = Inr original \<and>
           resize_image (resize_lanczos ext)
             (if mode original \<noteq> RGBA then convert RGBA original else original) MAX_IMAGE_DIM
             = Inr pre \<and>
           enhance ext opts pre = Inr processed \<and>
           remove ext processed (alpha_matting opts) (fg_threshold opts) (bg_threshold opts)
             = Inr removed \<and>
           composite ext (bg_color opts) removed = Inr final"
  using assms unfolding process_image_body_def
  by (auto simp: bind_exn_Inr_iff)

lemma process_image_body_contrast_example:
  "process_image_body
     (plain_externals \<lparr>width = 1, height = 1, mode = RGBA, pixels = [(200, 100, 50, 255)]\<rparr>
        (0, 0, 0, 255))
     [] (default_options\<lparr>use_contrast := True, bg_color := ''transparent''\<rparr>)
   = Inr (\<lparr>width = 1, height = 1, mode = RGBA, pixels = [(200, 100, 50, 255)]\<rparr>,
          \<lparr>width = 1, height = 1, mode = RGBA, pixels = [(214, 94, 34, 255)]\<rparr>)"
  by code_simp

theorem process_image_body_returns_resized_witness:
  "\<exists>original processed removed.
     image_open (plain_externals \<lparr>width = 1, height = 1, mode = RGBA, pixels = [(200, 100, 50, 255)]\<rparr>
        (0, 0, 0, 255)) [] = Inr original \<and>
     resize_image (resize_lanczos
         (plain_externals \<lparr>width = 1, height = 1, mode = RGBA, pixels = [(200, 100, 50, 255)]\<rparr>
            (0, 0, 0, 255)))
       (if mode original \<noteq> RGBA then convert RGBA original else original) MAX_IMAGE_DIM
       = Inr \<lparr>width = 1, height = 1, mode = RGBA, pixels = [(200, 100, 50, 255)]\<rparr> \<and>
     enhance (plain_externals \<lparr>width = 1, height = 1, mode = RGBA, pixels = [(200, 100, 50, 255)]\<rparr>
        (0, 0, 0, 255)) (default_options\<lparr>use_contrast := True, bg_color := ''transparent''\<rparr>)
       \<lparr>width = 1, height = 1, mode = RGBA, pixels = [(200, 100, 50, 255)]\<rparr> = Inr processed \<and>
     remove (plain_externals \<lparr>width = 1, height = 1, mode = RGBA, pixels = [(200, 100, 50, 255)]\<rparr>
        (0, 0, 0, 255)) processed
       (alpha_matting (default_options\<lparr>use_contrast := True, bg_color := ''transparent''\<rparr>))
       (fg_threshold (default_options\<lparr>use_contrast := True, bg_color := ''transparent''\<rparr>))
       (bg_threshold (default_options\<lparr>use_contrast := True, bg_color := ''transparent''\<rparr>))
       = Inr removed \<and>
     composite (plain_externals \<lparr>width = 1, height = 1, mode = RGBA, pixels = [(200, 100, 50, 255)]\<rparr>
        (0, 0, 0, 255))
       (bg_color (default_options\<lparr>use_contrast := True, bg_color := ''transparent''\<rparr>)) removed
       = Inr \<lparr>width = 1, height = 1, mode = RGBA, pixels = [(214, 94, 34, 255)]\<rparr>"
  by (rule process_image_body_returns_resized [OF process_image_body_contrast_example])

text \<open>
  C1 as stated fails: with the contrast filter on, the first image of the pair is the
  resized bitmap, which differs from the enhanced one.
\<close>

theorem process_image_body_preprocessed_counterexample:
  "process_image_body
     (plain_externals \<lparr>width = 1, height = 1, mode = RGBA, pixels = [(200, 100, 50, 255)]\<rparr>
        (0, 0, 0, 255))
     [] (default_options\<lparr>use_contrast := True, bg_color := ''transparent''\<rparr>)
   = Inr (\<lparr>width = 1, height = 1, mode = RGBA, pixels = [(200, 100, 50, 255)]\<rparr>,
          \<lparr>width = 1, height = 1, mode = RGBA, pixels = [(214, 94, 34, 255)]\<rparr>) \<and>
   enhance
     (plain_externals \<lparr>width = 1, height = 1, mode = RGBA, pixels = [(200, 100, 50, 255)]\<rparr>
        (0, 0, 0, 255))
     (default_options\<lparr>use_contrast := True, bg_color := ''transparent''\<rparr>)
     \<lparr>width = 1, height = 1, mode = RGBA, pixels = [(200, 100, 50, 255)]\<rparr>
   = Inr \<lparr>width = 1, height = 1, mode = RGBA, pixels = [(214, 94, 34, 255)]\<rparr> \<and>
   \<lparr>width = 1, height = 1, mode = RGBA, pixels = [(200, 100, 50, 255) :: pixel]\<rparr>
   \<noteq> \<lparr>width = 1, height = 1, mode = RGBA, pixels = [(214, 94, 34, 255)]\<rparr>"
  by code_simp

section \<open>Failures and the cache\<close>

lemma process_image_uncached_failure:
  assumes "process_image_body ext image_bytes opts = Inl e"
  shows "process_image_uncached ext image_bytes opts s =
    ((None, None),
     s\<lparr>decode_calls := decode_calls s + 1,
       errors := errors s @ [''Error during image processing: '' @ str_exn e]\<rparr>)"
  using assms by (simp add: process_image_uncached_def)

text \<open>
  C2, as the code has it. When a stage raises on a request that is not served from the
  cache (no entry, or an entry older than 3600 seconds), the handler shows the message of
  the exception, without the name of the stage, and the call returns \<open>(None, None)\<close>.
  The cache stores this pair like any other return value: the same request within the
  next 3600 seconds gets \<open>(None, None)\<close> from the cache, and no stage runs again.
\<close>

theorem process_image_failure_memoized:
  assumes "process_image_body ext image_bytes opts = Inl e"
    and "cache s (image_bytes, opts) = None \<or>
         (\<exists>v stored. cache s (image_bytes, opts) = Some (v, stored) \<and> 3600 < now - stored)"
    and "later - now \<le> 3600"
  shows "let s' = s\<lparr>decode_calls := decode_calls s + 1,
                    errors := errors s @ [''Error during image processing: '' @ str_exn e],
                    cache := (cache s)((image_bytes, opts) \<mapsto> ((None, None), now))\<rparr>
         in process_image ext now image_bytes opts s = ((None, None), s') \<and>
            process_image ext later image_bytes opts s' = ((None, None), s')"
proof -
  define s' where "s' = s\<lparr>decode_calls := decode_calls s + 1,
                    errors := errors s @ [''Error during image processing: '' @ str_exn e],
                    cache := (cache s)((image_bytes, opts) \<mapsto> ((None, None), now))\<rparr>"
  have first: "process_image ext now image_bytes opts s = ((None, None), s')"
    using assms(2)
    by (auto simp: process_image_def cache_data_def s'_def
        process_image_uncached_failure[OF assms(1)])
  have "cache s' (image_bytes, opts) = Some ((None, None), now)"
    by (simp add: s'_def)
  then have second: "process_image ext later image_bytes opts s' = ((None, None), s')"
    using assms(3) by (simp add: process_image_def cache_data_def)
  show ?thesis using first second unfolding s'_def Let_def by simp
qed

theorem process_image_failure_memoized_witness:
  "let s' = initial_app\<lparr>decode_calls := decode_calls initial_app + 1,
              errors := errors initial_app @
                [''Error during image processing: '' @ str_exn (Raised ''cannot identify image file'')],
              cache := (cache initial_app)(([1, 2, 3], default_options) \<mapsto> ((None, None), 100))\<rparr>
   in process_image failing_externals 100 [1, 2, 3] default_options initial_app = ((None, None), s') \<and>
      process_image failing_externals 3700 [1, 2, 3] default_options s' = ((None, None), s')"
proof -
  have b: "process_image_body failing_externals [1, 2, 3] default_options
           = Inl (Raised ''cannot identify image file'')"
    by (simp add: process_image_body_def failing_externals_def plain_externals_def bind_exn_simps)
  have c: "cache initial_app ([1, 2, 3], default_options) = None \<or>
         (\<exists>v stored. cache initial_app ([1, 2, 3], default_options) = Some (v, stored) \<and>
            3600 < 100 - stored)"
    by (simp add: initial_app_def)
  have t: "(3700 :: int) - 100 \<le> 3600" by simp
  show ?thesis by (rule process_image_failure_memoized [OF b c t])
qed

text \<open>
  C2 as stated fails: after a request whose decoding raises, the cache holds
  \<open>(None, None)\<close> for its key, and the same request one second later is answered from the
  cache; the decoder has still been called once.
\<close>

theorem process_image_failure_counterexample:
  "fst (process_image failing_externals 0 [1, 2, 3] default_options initial_app) = (None, None) \<and>
   cache (snd (process_image failing_externals 0 [1, 2, 3] default_options initial_app))
     ([1, 2, 3], default_options) = Some ((None, None), 0) \<and>
   errors (snd (process_image failing_externals 0 [1, 2, 3] default_options initial_app))
     = [''Error during image processing: cannot identify image file''] \<and>
   fst (process_image failing_externals 1 [1, 2, 3] default_options
     (snd (process_image failing_externals 0 [1, 2, 3] default_options initial_app))) = (None, None) \<and>
   decode_calls (snd (process_image failing_externals 1 [1, 2, 3] default_options
     (snd (process_image failing_externals 0 [1, 2, 3] default_options initial_app)))) = 1"
proof -
  have b: "process_image_body failing_externals [1, 2, 3] default_options
           = Inl (Raised ''cannot identify image file'')"
    by (simp add: process_image_body_def failing_externals_def plain_externals_def bind_exn_simps)
  have first: "process_image failing_externals 0 [1, 2, 3] default_options initial_app =
    ((None, None),
     \<lparr>cache = (\<lambda>k. None)(([1, 2, 3], default_options) \<mapsto> ((None, None), 0)),
      errors = [''Error during image processing: cannot identify image file''],
      shown = [], decode_calls = 1\<rparr>)"
    by (simp add: process_image_def cache_data_def process_image_uncached_def b initial_app_def
        str_exn_def)
  show ?thesis unfolding first
    by (simp add: process_image_def cache_data_def)
qed

section \<open>Properties of main\<close>

text \<open>
  C9. An upload of more than 15 MiB is refused with the size message before
  \<^verbatim>\<open>process_image\<close> is called: the cache is not read or written, the decoder is not run,
  and nothing is shown.
\<close>

theorem handle_upload_too_large:
  assumes "MAX_FILE_SIZE < int (length (data my_upload))"
  shows "handle_upload ext now my_upload opts s =
           s\<lparr>errors := errors s @
             [''File size exceeds the limit of 15MB. Please upload a smaller image.'']\<rparr> \<and>
         cache (handle_upload ext now my_upload opts s) = cache s \<and>
         decode_calls (handle_upload ext now my_upload opts s) = decode_calls s \<and>
         shown (handle_upload ext now my_upload opts s) = shown s"
  using assms by (simp add: handle_upload_def)

theorem handle_upload_too_large_witness:
  "handle_upload (plain_externals \<lparr>width = 1, height = 1, mode = RGBA, pixels = [(200, 100, 50, 255)]\<rparr>
       (0, 0, 0, 255)) 0
     \<lparr>name = ''big.png'', data = replicate (20 * 1024 * 1024) 0\<rparr> default_options initial_app
   = initial_app\<lparr>errors := errors initial_app @
       [''File size exceeds the limit of 15MB. Please upload a smaller image.'']\<rparr> \<and>
   decode_calls (handle_upload
     (plain_externals \<lparr>width = 1, height = 1, mode = RGBA, pixels = [(200, 100, 50, 255)]\<rparr>
       (0, 0, 0, 255)) 0
     \<lparr>name = ''big.png'', data = replicate (20 * 1024 * 1024) 0\<rparr> default_options initial_app) = 0"
proof -
  have h: "MAX_FILE_SIZE < int (length (data \<lparr>name = ''big.png'', data = replicate (20 * 1024 * 1024) (0 :: byte)\<rparr>))"
    by (simp add: MAX_FILE_SIZE_def)
  show ?thesis
    using handle_upload_too_large [OF h, of
        "plain_externals \<lparr>width = 1, height = 1, mode = RGBA, pixels = [(200, 100, 50, 255)]\<rparr>
           (0, 0, 0, 255)" 0 default_options initial_app]
    by (simp add: initial_app_def)
qed

end
